theory Spec2Isabelle
  imports Complex_Main
begin

section \<open>The calibration system\<close>

text \<open>
  The object \<open>CalibrationSystem\<close> holds two mutable fields that matter for the tracker,
  \<open>isActive\<close> and \<open>progress\<close>, the stimulus table \<open>imagePool\<close>, and it reads and
  writes the page: the \<open>src\<close> attribute of the element \<open>calib-image-display\<close> is the
  only part of the page that the code reads back after writing it, so it is part of the
  state here. JavaScript numbers are modelled by rationals: every value of \<open>progress\<close> that
  the code can produce is a multiple of one half below 200, which a double holds exactly.
  The percentage shown on the bar is the exact quotient here, where the source has its
  rounding to a double; no statement below depends on the digits of a percentage.
\<close>

datatype phase = Focus | Neutral | Relax

record calib =
  isActive :: bool
  progress :: rat
  imagePool :: "phase \<Rightarrow> string list option"
  imgSrc :: "string option"

definition targetPoints :: rat where
  "targetPoints = 150"

text \<open>
  Which of the elements looked up by \<open>elements.guide()\<close>, \<open>bar()\<close>, \<open>timer()\<close>,
  \<open>image()\<close> and \<open>activeId()\<close> exist in the page. \<open>getElementById\<close> returns null
  for a missing one.
\<close>

record page =
  has_guide :: bool
  has_bar :: bool
  has_timer :: bool
  has_image :: bool
  has_activeId :: bool

text \<open>
  What a call reads from outside the object: the text of \<open>display-id\<close>, the operator's
  answer to \<open>confirm\<close>, the value of \<open>Math.random()\<close> and the stored token.
\<close>

record inputs =
  subjectText :: string
  confirmAnswer :: bool
  randomDraw :: rat
  token :: "string option"

text \<open>
  What a call does to the outside, in order. \<open>CompleteEntered\<close> marks an entry into
  \<open>complete()\<close>; \<open>TypeError\<close> is the exception of reading \<open>innerText\<close> of null.
\<close>

datatype event =
    GuideShown
  | GuideHidden
  | TimerSet string string
  | BarWidth rat
  | BarInfo
  | BarDanger
  | ImageSet string
  | Toast string
  | CompleteEntered
  | Confirm string
  | PostCalibrateDone "string option" string bool rat
  | TypeError

subsection \<open>Strings\<close>

text \<open>
  \<open>toLowerCase\<close> on the letters A to Z. No character outside ASCII has a lower-case form
  among the letters of the word neutral, so the comparison with that word is the
  source's.
\<close>

definition lowerChar :: "char \<Rightarrow> char" where
  "lowerChar c =
     (let n = (of_char c :: nat) in if 65 \<le> n \<and> n \<le> 90 then char_of (n + 32) else c)"

definition toLowerCase :: "string \<Rightarrow> string" where
  "toLowerCase s = map lowerChar s"

subsection \<open>updateUI\<close>

text \<open>Every caller passes a number for \<open>percent\<close>, so the test against null is true.\<close>

definition updateUI :: "page \<Rightarrow> string \<Rightarrow> string \<Rightarrow> rat \<Rightarrow> event list" where
  "updateUI pg text color percent =
     (if has_timer pg then [TimerSet text color] else []) @
     (if has_bar pg then [BarWidth percent] else [])"

subsection \<open>updateStimuli\<close>

text \<open>Lines 122 to 131: the phase and its label.\<close>

definition selectPhase :: "rat \<Rightarrow> phase" where
  "selectPhase percent =
     (if 33 \<le> percent \<and> percent < 66 then Neutral
      else if 66 \<le> percent then Relax
      else Focus)"

definition phaseLabel :: "phase \<Rightarrow> string" where
  "phaseLabel ph =
     (case ph of
        Focus \<Rightarrow> ''Phase 1: Focus on the Target''
      | Neutral \<Rightarrow> ''Phase 2: Maintain Empty Mind''
      | Relax \<Rightarrow> ''Phase 3: Deep Relaxation'')"

text \<open>
  \<open>pool[Math.floor(Math.random() * pool.length)]\<close>; an index outside the array reads
  \<open>undefined\<close>, which the assignment to \<open>src\<close> turns into that word.
\<close>

definition poolAt :: "string list \<Rightarrow> int \<Rightarrow> string" where
  "poolAt pool i =
     (if 0 \<le> i \<and> i < int (length pool) then pool ! nat i else ''undefined'')"

definition pool_includes :: "string list \<Rightarrow> string option \<Rightarrow> bool" where
  "pool_includes pool cur = (case cur of None \<Rightarrow> False | Some a \<Rightarrow> a \<in> set pool)"

text \<open>Lines 133 to 139: the choice of the displayed asset for a phase.\<close>

definition proposeAsset :: "inputs \<Rightarrow> phase \<Rightarrow> calib \<Rightarrow> calib \<times> event list" where
  "proposeAsset inp ph s =
     (case imagePool s ph of
        None \<Rightarrow> (s, [])
      | Some pool \<Rightarrow>
          if 0 < length pool then
            (if \<not> pool_includes pool (imgSrc s) then
               (let a = poolAt pool \<lfloor>randomDraw inp * of_nat (length pool)\<rfloor>
                in (s\<lparr>imgSrc := Some a\<rparr>, [ImageSet a]))
             else (s, []))
          else (s, []))"

definition updateStimuli :: "page \<Rightarrow> inputs \<Rightarrow> rat \<Rightarrow> calib \<Rightarrow> calib \<times> event list" where
  "updateStimuli pg inp percent s =
     (if \<not> has_image pg then (s, [])
      else
        (let ph = selectPhase percent;
             (s1, ev1) = proposeAsset inp ph s
         in (s1, ev1 @ updateUI pg (phaseLabel ph) ''#28a745'' percent)))"

subsection \<open>start, complete, stop\<close>

definition start :: "page \<Rightarrow> inputs \<Rightarrow> calib \<Rightarrow> calib \<times> event list" where
  "start pg inp s =
     (if isActive s then (s, [])
      else if \<not> has_activeId pg then (s, [TypeError])
      else if subjectText inp = ''STANDBY'' then
        (s, [Toast ''Notice: Please SELECT a subject from the database first!''])
      else
        (let s1 = s\<lparr>isActive := True, progress := 0\<rparr>;
             ev1 = (if has_guide pg then [GuideShown] else []);
             (s2, ev2) = updateStimuli pg inp 0 s1
         in (s2, ev1 @ ev2 @ updateUI pg ''Waiting for Neutral Face...'' ''#17a2b8'' 0)))"

text \<open>
  \<open>complete()\<close> up to the dispatch of the request. The notice shown when the server has
  answered belongs to a later task of the event loop and touches no field of the object.
\<close>

definition confirmMsg :: "string \<Rightarrow> string" where
  "confirmMsg subject =
     ''Calibration Complete for '' @ subject @ ''.'' @ [CHR 0x0A, CHR 0x0A] @
     ''Apply a 0.001 adaptive update to the neural baseline?''"

definition complete_session :: "page \<Rightarrow> inputs \<Rightarrow> calib \<Rightarrow> calib \<times> event list" where
  "complete_session pg inp s =
     (let s1 = s\<lparr>isActive := False\<rparr>;
          ev1 = CompleteEntered # (if has_guide pg then [GuideHidden] else [])
      in if \<not> has_activeId pg then (s1, ev1 @ [TypeError])
         else
           (s1, ev1 @
             [Confirm (confirmMsg (subjectText inp)),
              PostCalibrateDone (token inp) (subjectText inp) (confirmAnswer inp) (1 / 1000)]))"

definition stop :: "page \<Rightarrow> calib \<Rightarrow> calib \<times> event list" where
  "stop pg s = (s\<lparr>isActive := False\<rparr>, if has_guide pg then [GuideHidden] else [])"

subsection \<open>processFrame\<close>

text \<open>
  The guard of line 79. A missing or empty \<open>faceEmotion\<close> is falsy.
\<close>

definition isHold :: "string option \<Rightarrow> rat \<Rightarrow> bool" where
  "isHold faceEmotion faceConf =
     (case faceEmotion of
        None \<Rightarrow> False
      | Some e \<Rightarrow> e \<noteq> [] \<and> toLowerCase e = ''neutral'' \<and> 1 / 2 < faceConf)"

definition processFrame ::
  "page \<Rightarrow> inputs \<Rightarrow> string option \<Rightarrow> rat \<Rightarrow> calib \<Rightarrow> calib \<times> event list" where
  "processFrame pg inp faceEmotion faceConf s =
     (if \<not> isActive s then (s, [])
      else if \<not> has_image pg then (s, [])
      else if isHold faceEmotion faceConf then
        (let s1 = s\<lparr>progress := progress s + 1\<rparr>;
             percent = progress s1 / targetPoints * 100;
             (s2, ev2) = updateStimuli pg inp percent s1;
             ev3 = (if has_bar pg then [BarInfo] else [])
         in if targetPoints \<le> progress s2 then
              (let (s3, ev4) = complete_session pg inp s2 in (s3, ev2 @ ev3 @ ev4))
            else (s2, ev2 @ ev3))
      else
        (let s1 = (if 0 < progress s then s\<lparr>progress := progress s - 1 / 2\<rparr> else s);
             percent = max 0 (progress s1 / targetPoints * 100)
         in (s1, updateUI pg ''Paused: Keep Face Neutral!'' ''#dc3545'' percent @
                 (if has_bar pg then [BarDanger] else []))))"

subsection \<open>Sequences of calls\<close>

text \<open>
  \<open>init()\<close> replaces the stimulus table when the server answered with one; what it
  writes to the console is left out.
\<close>

definition init_pool :: "(phase \<Rightarrow> string list option) option \<Rightarrow> calib \<Rightarrow> calib" where
  "init_pool response s = (case response of None \<Rightarrow> s | Some p \<Rightarrow> s\<lparr>imagePool := p\<rparr>)"

datatype call =
    CallInit "(phase \<Rightarrow> string list option) option"
  | CallStart
  | CallProcessFrame "string option" rat
  | CallStop
  | CallComplete

fun step :: "page \<Rightarrow> inputs \<times> call \<Rightarrow> calib \<Rightarrow> calib \<times> event list" where
  "step pg (inp, CallInit response) s = (init_pool response s, [])"
| "step pg (inp, CallStart) s = start pg inp s"
| "step pg (inp, CallProcessFrame faceEmotion faceConf) s =
     processFrame pg inp faceEmotion faceConf s"
| "step pg (inp, CallStop) s = stop pg s"
| "step pg (inp, CallComplete) s = complete_session pg inp s"

fun run :: "page \<Rightarrow> (inputs \<times> call) list \<Rightarrow> calib \<Rightarrow> calib \<times> event list" where
  "run pg [] s = (s, [])"
| "run pg (c # cs) s =
     (let (s1, ev1) = step pg c s;
          (s2, ev2) = run pg cs s1
      in (s2, ev1 @ ev2))"

text \<open>The object as the script creates it: idle, no progress, three empty pools.\<close>

definition initial :: "string option \<Rightarrow> calib" where
  "initial src =
     \<lparr>isActive = False, progress = 0, imagePool = (\<lambda>ph. Some []), imgSrc = src\<rparr>"

text \<open>A frame, and a run of frames, as calls.\<close>

fun frameCall :: "inputs \<times> string option \<times> rat \<Rightarrow> inputs \<times> call" where
  "frameCall (inp, faceEmotion, faceConf) = (inp, CallProcessFrame faceEmotion faceConf)"

fun frameIsHold :: "inputs \<times> string option \<times> rat \<Rightarrow> bool" where
  "frameIsHold (inp, faceEmotion, faceConf) = isHold faceEmotion faceConf"

subsection \<open>Concrete pages, inputs and frames\<close>

definition page0 :: page where
  "page0 =
     \<lparr>has_guide = True, has_bar = True, has_timer = True, has_image = True,
      has_activeId = True\<rparr>"

definition pageNoImage :: page where
  "pageNoImage = page0\<lparr>has_image := False\<rparr>"

definition inp0 :: inputs where
  "inp0 = \<lparr>subjectText = ''S01'', confirmAnswer = True, randomDraw = 0, token = None\<rparr>"

definition holdFrame :: "inputs \<times> string option \<times> rat" where
  "holdFrame = (inp0, Some ''Neutral'', 4 / 5)"

definition missFrame :: "inputs \<times> string option \<times> rat" where
  "missFrame = (inp0, Some ''happy'', 9 / 10)"

definition midSession :: calib where
  "midSession =
     \<lparr>isActive = True, progress = 10, imagePool = (\<lambda>ph. Some []), imgSrc = None\<rparr>"


definition poolState :: calib where
  "poolState =
     \<lparr>isActive = True, progress = 60,
      imagePool = (\<lambda>ph. case ph of Focus \<Rightarrow> Some [''f1.png'']
                          | Neutral \<Rightarrow> Some [''n1.png'', ''n2.png'']
                          | Relax \<Rightarrow> None),
      imgSrc = Some ''f1.png''\<rparr>"

definition inpDraw :: inputs where
  "inpDraw = \<lparr>subjectText = ''S01'', confirmAnswer = True, randomDraw = 3 / 4, token = None\<rparr>"

subsection \<open>The invariant of the tracker\<close>

text \<open>
  \<open>progress\<close> is a whole number of halves, an active session is below the target, and
  no state is more than one half above it.
\<close>

definition tracker_inv :: "calib \<Rightarrow> bool" where
  "tracker_inv s =
     (2 * progress s \<in> \<nat> \<and> (isActive s \<longrightarrow> progress s < targetPoints) \<and>
      progress s \<le> targetPoints + 1 / 2)"

section \<open>The fusion status of the dashboard\<close>







text \<open>
  Lines 295 to 326: what the fusion panel shows. \<open>BothAgree\<close> is the badge SENSORS AGREE,
  \<open>BothDissent\<close> is DISSENT DETECTED, \<open>FaceOnly\<close> is CAMERA ONLY MODE, \<open>SignalOnly\<close> is
  EEG ONLY MODE, and \<open>Waiting\<close> is the waiting panel shown in place of the badge.
\<close>

datatype fusionVerdict = BothAgree | BothDissent | FaceOnly | SignalOnly | Waiting









section \<open>Basic facts\<close>

lemma holdFrame_isHold: "frameIsHold holdFrame"
  by code_simp

lemma missFrame_not_isHold: "\<not> frameIsHold missFrame"
  by code_simp

lemma proposeAsset_fields:
  "isActive (fst (proposeAsset inp ph s)) = isActive s"
  "progress (fst (proposeAsset inp ph s)) = progress s"
  "imagePool (fst (proposeAsset inp ph s)) = imagePool s"
  by (simp_all add: proposeAsset_def Let_def split: option.splits)

lemma updateStimuli_fields:
  "isActive (fst (updateStimuli pg inp percent s)) = isActive s"
  "progress (fst (updateStimuli pg inp percent s)) = progress s"
  "imagePool (fst (updateStimuli pg inp percent s)) = imagePool s"
  by (simp_all add: updateStimuli_def Let_def split_beta proposeAsset_fields)


lemma processFrame_idle: "\<not> isActive s \<Longrightarrow> processFrame pg inp e c s = (s, [])"
  by (simp add: processFrame_def)

lemma processFrame_blind: "\<not> has_image pg \<Longrightarrow> processFrame pg inp e c s = (s, [])"
  by (simp add: processFrame_def)

lemma processFrame_hold:
  assumes "isActive s" "has_image pg" "isHold e c"
  shows "progress (fst (processFrame pg inp e c s)) = progress s + 1"
    and "isActive (fst (processFrame pg inp e c s)) = (progress s + 1 < targetPoints)"
  using assms
  by (auto simp add: processFrame_def Let_def split_beta updateStimuli_fields
      complete_session_def)

lemma processFrame_miss:
  assumes "isActive s" "has_image pg" "\<not> isHold e c"
  shows "progress (fst (processFrame pg inp e c s)) =
           (if 0 < progress s then progress s - 1 / 2 else progress s)"
    and "isActive (fst (processFrame pg inp e c s))"
    and "CompleteEntered \<notin> set (snd (processFrame pg inp e c s))"
  using assms
  by (auto simp add: processFrame_def Let_def updateUI_def)

lemma run_append:
  "run pg (as @ bs) s =
     (let (s1, ev1) = run pg as s; (s2, ev2) = run pg bs s1 in (s2, ev1 @ ev2))"
  by (induction as arbitrary: s) (simp_all add: Let_def split_beta)

lemma run_append_fst: "fst (run pg (as @ bs) s) = fst (run pg bs (fst (run pg as s)))"
  by (simp add: run_append split_beta)

subsection \<open>Halves\<close>

lemma half_steps_below:
  fixes p :: rat
  assumes "2 * p \<in> \<nat>" "p < 150"
  shows "p + 1 \<le> 150 + 1 / 2"
proof -
  from assms(1) obtain n :: nat where n: "2 * p = of_nat n"
    by (auto elim: Nats_cases)
  with assms(2) have "(of_nat n :: rat) < of_nat 300" by simp
  then have "n < 300" by (simp only: of_nat_less_iff)
  then have "n \<le> 299" by simp
  then have "(of_nat n :: rat) \<le> of_nat 299" by (simp only: of_nat_le_iff)
  with n show ?thesis by simp
qed

lemma half_steps_down:
  fixes p :: rat
  assumes "2 * p \<in> \<nat>" "0 < p"
  shows "2 * (p - 1 / 2) \<in> \<nat>"
proof -
  from assms(1) obtain n :: nat where n: "2 * p = of_nat n"
    by (auto elim: Nats_cases)
  with assms(2) have "0 < n" by (cases n) auto
  then have "(of_nat (n - 1) :: rat) = of_nat n - 1" by (simp add: of_nat_diff)
  with n have "2 * (p - 1 / 2) = of_nat (n - 1)" by (simp add: algebra_simps)
  then show ?thesis by (simp only: of_nat_in_Nats)
qed

lemma half_steps_up:
  fixes p :: rat
  assumes "2 * p \<in> \<nat>"
  shows "2 * (p + 1) \<in> \<nat>"
proof -
  have "2 * (p + 1) = 2 * p + 2" by simp
  moreover have "(2::rat) \<in> \<nat>" by simp
  ultimately show ?thesis using assms by (simp only: Nats_add)
qed

lemma half_steps_nonneg:
  fixes p :: rat
  assumes "2 * p \<in> \<nat>"
  shows "0 \<le> p"
proof -
  from assms obtain n :: nat where "2 * p = of_nat n"
    by (auto elim: Nats_cases)
  then have "0 \<le> 2 * p" by simp
  then show ?thesis by simp
qed

subsection \<open>Every call keeps the invariant\<close>

lemma processFrame_inv:
  assumes "tracker_inv s"
  shows "tracker_inv (fst (processFrame pg inp e c s))"
proof (cases "isActive s \<and> has_image pg")
  case False
  then show ?thesis using assms by (auto simp add: processFrame_idle processFrame_blind)
next
  case True
  show ?thesis
  proof (cases "isHold e c")
    case True
    with \<open>isActive s \<and> has_image pg\<close> assms show ?thesis
      using half_steps_below [of "progress s"] half_steps_up [of "progress s"]
      by (simp add: tracker_inv_def processFrame_hold targetPoints_def)
  next
    case False
    with \<open>isActive s \<and> has_image pg\<close> assms show ?thesis
      using half_steps_down [of "progress s"]
      by (simp add: tracker_inv_def processFrame_miss targetPoints_def)
  qed
qed

lemma start_inv:
  assumes "tracker_inv s"
  shows "tracker_inv (fst (start pg inp s))"
  using assms
  by (simp add: start_def Let_def split_beta tracker_inv_def updateStimuli_fields
      targetPoints_def)

lemma step_inv:
  assumes "tracker_inv s"
  shows "tracker_inv (fst (step pg c s))"
proof (cases c)
  case (Pair inp k)
  show ?thesis
  proof (cases k)
    case (CallInit r)
    with Pair assms show ?thesis
      by (simp add: init_pool_def tracker_inv_def split: option.splits)
  next
    case CallStart
    with Pair assms show ?thesis by (simp add: start_inv)
  next
    case (CallProcessFrame e c)
    with Pair assms show ?thesis by (simp add: processFrame_inv)
  next
    case CallStop
    with Pair assms show ?thesis by (simp add: stop_def tracker_inv_def)
  next
    case CallComplete
    with Pair assms show ?thesis by (simp add: complete_session_def tracker_inv_def Let_def)
  qed
qed

lemma run_inv:
  assumes "tracker_inv s"
  shows "tracker_inv (fst (run pg cs s))"
  using assms
  by (induction cs arbitrary: s) (simp_all add: split_beta Let_def step_inv)

lemma initial_inv: "tracker_inv (initial src)"
  by (simp add: tracker_inv_def initial_def targetPoints_def)

subsection \<open>A run of holds below the target\<close>

lemma run_holds:
  assumes "has_image pg" "isActive s" "\<forall>f \<in> set fs. frameIsHold f"
    "progress s + of_nat (length fs) < targetPoints"
  shows "isActive (fst (run pg (map frameCall fs) s)) \<and>
         progress (fst (run pg (map frameCall fs) s)) = progress s + of_nat (length fs)"
  using assms
proof (induction fs arbitrary: s)
  case Nil
  then show ?case by simp
next
  case (Cons f fs)
  obtain inp e c where f: "f = (inp, e, c)" by (cases f)
  let ?t = "fst (processFrame pg inp e c s)"
  from Cons.prems f have h: "isHold e c" by simp
  from Cons.prems have lt: "progress s + 1 < targetPoints" by simp
  have t: "isActive ?t" "progress ?t = progress s + 1"
    using processFrame_hold [OF \<open>isActive s\<close> \<open>has_image pg\<close> h, of inp] lt by simp_all
  have "isActive (fst (run pg (map frameCall fs) ?t)) \<and>
        progress (fst (run pg (map frameCall fs) ?t)) = progress ?t + of_nat (length fs)"
    using Cons.prems t by (intro Cons.IH) (simp_all add: algebra_simps)
  with t f show ?case
    by (simp add: split_beta Let_def algebra_simps)
qed

text \<open>
  One session on a full page: start, 149 holds, one lapse, two holds. The lapse puts
  \<open>progress\<close> on a half, and the last hold steps from 149.5 to 150.5.
\<close>

lemma overshoot_run:
  "progress (fst (run page0
      ((inp0, CallStart) # map frameCall (replicate 149 holdFrame) @
        map frameCall [missFrame, holdFrame, holdFrame]) (initial None))) = 301 / 2"
proof -
  let ?s1 = "fst (start page0 inp0 (initial None))"
  have s1: "isActive ?s1" "progress ?s1 = 0"
    by (simp_all add: start_def initial_def page0_def inp0_def Let_def split_beta
        updateStimuli_fields)
  let ?s2 = "fst (run page0 (map frameCall (replicate 149 holdFrame)) ?s1)"
  have img: "has_image page0" by (simp add: page0_def)
  have s2: "isActive ?s2 \<and>
      progress ?s2 = progress ?s1 + of_nat (length (replicate 149 holdFrame))"
    using s1 by (intro run_holds img) (simp_all add: holdFrame_isHold targetPoints_def)
  then have s2': "isActive ?s2" "progress ?s2 = 149" using s1 by simp_all
  have nm: "\<not> isHold (Some ''happy'') (9 / 10)"
    using missFrame_not_isHold by (simp add: missFrame_def)
  have ih: "isHold (Some ''Neutral'') (4 / 5)"
    using holdFrame_isHold by (simp add: holdFrame_def)
  let ?s3 = "fst (processFrame page0 inp0 (Some ''happy'') (9 / 10) ?s2)"
  have s3: "isActive ?s3" "progress ?s3 = 297 / 2"
    using processFrame_miss [OF s2'(1) img nm, of inp0] s2' by simp_all
  let ?s4 = "fst (processFrame page0 inp0 (Some ''Neutral'') (4 / 5) ?s3)"
  have s4: "isActive ?s4" "progress ?s4 = 299 / 2"
    using processFrame_hold [OF s3(1) img ih, of inp0] s3 by (simp_all add: targetPoints_def)
  let ?s5 = "fst (processFrame page0 inp0 (Some ''Neutral'') (4 / 5) ?s4)"
  have s5: "progress ?s5 = 301 / 2"
    using processFrame_hold [OF s4(1) img ih, of inp0] s4 by simp
  show ?thesis
    using s5 by (simp add: run_append_fst split_beta Let_def missFrame_def holdFrame_def)
qed

section \<open>The bounds of progress\<close>

text \<open>
  Claim C1, as amended. After any sequence of calls of \<open>init\<close>, \<open>start\<close>,
  \<open>processFrame\<close>, \<open>stop\<close> and \<open>complete\<close> on the object as created, \<open>progress\<close>
  is at least 0 and at most \<open>targetPoints\<close> plus one half, and it is below
  \<open>targetPoints\<close> while the session is active. The source has no cap: a hold adds 1
  also at 149.5.
\<close>

theorem progress_bounds:
  "0 \<le> progress (fst (run pg cs (initial src))) \<and>
   progress (fst (run pg cs (initial src))) \<le> targetPoints + 1 / 2 \<and>
   (isActive (fst (run pg cs (initial src))) \<longrightarrow>
      progress (fst (run pg cs (initial src))) < targetPoints)"
  using run_inv [OF initial_inv, of pg cs src] half_steps_nonneg
  by (simp add: tracker_inv_def)

theorem progress_bounds_witness:
  "isActive (fst (run page0 [(inp0, CallStart)] (initial None))) \<and>
   progress (fst (run page0 [(inp0, CallStart)] (initial None))) < targetPoints"
  using progress_bounds [of page0 "[(inp0, CallStart)]" None]
  by (simp add: start_def initial_def page0_def inp0_def Let_def split_beta
      updateStimuli_fields)

text \<open>
  Claim C1 as stated fails: the run of \<open>overshoot_run\<close> ends with \<open>progress\<close> at 150.5,
  above \<open>targetPoints\<close>.
\<close>

theorem progress_bound_counterexample:
  "\<not> progress (fst (run page0
        ((inp0, CallStart) # map frameCall (replicate 149 holdFrame) @
          map frameCall [missFrame, holdFrame, holdFrame]) (initial None)))
      \<le> targetPoints"
  unfolding overshoot_run targetPoints_def by simp

section \<open>Frames on a page without the image element\<close>

text \<open>
  Claim C10. When the element \<open>calib-image-display\<close> is absent, \<open>processFrame\<close>
  returns at once: the state is the one it was given, so \<open>progress\<close> neither grows on a
  hold nor decays on a lapse, and nothing is sent to the page, whether or not a session
  is active.
\<close>

theorem processFrame_without_image:
  "\<not> has_image pg \<Longrightarrow> processFrame pg inp faceEmotion faceConf s = (s, [])"
  by (simp add: processFrame_def)

theorem processFrame_without_image_witness:
  "\<not> has_image pageNoImage \<and> isActive midSession \<and>
   isHold (Some ''Neutral'') (4 / 5) \<and> \<not> isHold (Some ''happy'') (9 / 10) \<and>
   processFrame pageNoImage inp0 (Some ''Neutral'') (4 / 5) midSession = (midSession, []) \<and>
   processFrame pageNoImage inp0 (Some ''happy'') (9 / 10) midSession = (midSession, [])"
proof -
  have a: "\<not> has_image pageNoImage" by (simp add: pageNoImage_def page0_def)
  have h: "isHold (Some ''Neutral'') (4 / 5)"
    using holdFrame_isHold by (simp add: holdFrame_def)
  have m: "\<not> isHold (Some ''happy'') (9 / 10)"
    using missFrame_not_isHold by (simp add: missFrame_def)
  show ?thesis
    using a h m processFrame_without_image [OF a, of inp0 "Some ''Neutral''" "4 / 5" midSession]
      processFrame_without_image [OF a, of inp0 "Some ''happy''" "9 / 10" midSession]
    by (simp add: midSession_def)
qed

section \<open>Teardown\<close>

lemma record_idle: "\<not> isActive s \<Longrightarrow> s\<lparr>isActive := False\<rparr> = s"
  by (cases s) simp

lemma run_frames_idle: "\<not> isActive s \<Longrightarrow> run pg (map frameCall fs) s = (s, [])"
proof (induction fs)
  case Nil
  then show ?case by simp
next
  case (Cons f fs)
  obtain inp e c where "f = (inp, e, c)" by (cases f)
  with Cons show ?case by (simp add: processFrame_idle)
qed

lemma run_frames_blind: "\<not> has_image pg \<Longrightarrow> run pg (map frameCall fs) s = (s, [])"
proof (induction fs)
  case Nil
  then show ?case by simp
next
  case (Cons f fs)
  obtain inp e c where "f = (inp, e, c)" by (cases f)
  with Cons show ?case by (simp add: processFrame_blind)
qed

lemma first_hold_then_stop:
  "isActive (fst (run page0 [(inp0, CallStart), frameCall holdFrame, (inp0, CallStop)]
      (initial None))) = False"
  "progress (fst (run page0 [(inp0, CallStart), frameCall holdFrame, (inp0, CallStop)]
      (initial None))) = 1"
  by code_simp+

text \<open>
  Claim C2, as amended. \<open>stop()\<close> and \<open>complete()\<close> leave the session inactive and
  \<open>progress\<close> at the value it had; neither resets it. The reset is in \<open>start()\<close>: a
  start that is accepted (no session active, a subject selected) leaves \<open>progress\<close> at 0
  with the session active.
\<close>

theorem teardown_state:
  "\<not> isActive (fst (stop pg s)) \<and> progress (fst (stop pg s)) = progress s \<and>
   \<not> isActive (fst (complete_session pg inp s)) \<and>
   progress (fst (complete_session pg inp s)) = progress s \<and>
   (\<not> isActive s \<and> has_activeId pg \<and> subjectText inp' \<noteq> ''STANDBY'' \<longrightarrow>
      isActive (fst (start pg inp' s)) \<and> progress (fst (start pg inp' s)) = 0)"
  by (simp add: stop_def complete_session_def start_def Let_def split_beta updateStimuli_fields)

theorem teardown_state_witness:
  "\<not> isActive (fst (stop page0 midSession)) \<and>
   has_activeId page0 \<and> subjectText inp0 \<noteq> ''STANDBY'' \<and>
   isActive (fst (start page0 inp0 (fst (stop page0 midSession)))) \<and>
   progress (fst (start page0 inp0 (fst (stop page0 midSession)))) = 0"
  using teardown_state [of page0 midSession inp0 inp0]
    teardown_state [of page0 "fst (stop page0 midSession)" inp0 inp0]
  by (simp add: page0_def inp0_def)

text \<open>
  Claim C2 as stated fails: after start, one hold and \<open>stop()\<close> the session is inactive
  and \<open>progress\<close> is 1.
\<close>

theorem teardown_counterexample:
  "\<not> (\<not> isActive (fst (run page0 [(inp0, CallStart), frameCall holdFrame, (inp0, CallStop)]
          (initial None))) \<longrightarrow>
       progress (fst (run page0 [(inp0, CallStart), frameCall holdFrame, (inp0, CallStop)]
          (initial None))) = 0)"
  unfolding first_hold_then_stop by simp

section \<open>Redundant transitions\<close>

text \<open>
  Claim C3, as amended. \<open>start()\<close> during a session returns the state it was given and
  does nothing. Without a session, \<open>stop()\<close> and \<open>complete()\<close> return the state they
  were given, \<open>stop()\<close> does no more than hide the guide again, and any run of
  \<open>processFrame\<close> calls returns the state it was given, so \<open>progress\<close> keeps its value,
  and sends nothing to the page. What \<open>complete()\<close> sends out is not part of the
  statement.
\<close>

theorem redundant_transitions:
  "(isActive s \<longrightarrow> start pg inp s = (s, [])) \<and>
   (\<not> isActive s \<longrightarrow> fst (stop pg s) = s \<and>
      snd (stop pg s) = (if has_guide pg then [GuideHidden] else [])) \<and>
   (\<not> isActive s \<longrightarrow> fst (complete_session pg inp s) = s) \<and>
   (\<not> isActive s \<longrightarrow> run pg (map frameCall fs) s = (s, []))"
  by (simp add: start_def stop_def complete_session_def Let_def record_idle run_frames_idle)

theorem redundant_transitions_witness:
  "isActive midSession \<and> start page0 inp0 midSession = (midSession, []) \<and>
   \<not> isActive (initial None) \<and>
   fst (stop page0 (initial None)) = initial None \<and>
   fst (complete_session page0 inp0 (initial None)) = initial None \<and>
   run page0 (map frameCall [holdFrame, missFrame]) (initial None) = (initial None, [])"
  using redundant_transitions [of midSession page0 inp0 "[]"]
    redundant_transitions [of "initial None" page0 inp0 "[holdFrame, missFrame]"]
  by (simp add: midSession_def initial_def)

text \<open>
  Claim C3 as stated fails: \<open>complete()\<close> has no guard, so on the object as created,
  with no session, it still asks the operator and posts the outcome.
\<close>

theorem redundant_complete_counterexample:
  "\<not> (\<not> isActive (initial None) \<longrightarrow>
        complete_session page0 inp0 (initial None) = (initial None, []))"
  by (simp add: complete_session_def initial_def page0_def Let_def)

section \<open>The phase of a percentage\<close>

text \<open>
  Claim C7. A percentage from 0 up to but not including 33 is in the phase Focus, from
  33 up to but not including 66 in Neutral, and from 66 to 100 in Relax; so 32.9 is
  Focus, 33 and 65.9 are Neutral, 66 and 100 are Relax.
\<close>

theorem selectPhase_ranges:
  "(0 \<le> p \<and> p < 33 \<longrightarrow> selectPhase p = Focus) \<and>
   (33 \<le> p \<and> p < 66 \<longrightarrow> selectPhase p = Neutral) \<and>
   (66 \<le> p \<and> p \<le> 100 \<longrightarrow> selectPhase p = Relax) \<and>
   selectPhase (329 / 10) = Focus \<and> selectPhase 33 = Neutral \<and>
   selectPhase (659 / 10) = Neutral \<and> selectPhase 66 = Relax \<and> selectPhase 100 = Relax"
  by (simp add: selectPhase_def)

theorem selectPhase_ranges_witness:
  "((0::rat) \<le> 10 \<and> (10::rat) < 33 \<and> selectPhase 10 = Focus) \<and>
   ((33::rat) \<le> 40 \<and> (40::rat) < 66 \<and> selectPhase 40 = Neutral) \<and>
   ((66::rat) \<le> 80 \<and> (80::rat) \<le> 100 \<and> selectPhase 80 = Relax)"
  using selectPhase_ranges [of 10] selectPhase_ranges [of 40] selectPhase_ranges [of 80]
  by simp

section \<open>The classification of a frame\<close>

lemma half_steps_pos:
  fixes p :: rat
  assumes "2 * p \<in> \<nat>" "0 < p"
  shows "1 / 2 \<le> p"
proof -
  from assms(1) obtain n :: nat where n: "2 * p = of_nat n"
    by (auto elim: Nats_cases)
  with assms(2) have "0 < n" by (cases n) auto
  then have "1 \<le> n" by simp
  then have "(of_nat 1 :: rat) \<le> of_nat n" by (simp only: of_nat_le_iff)
  with n show ?thesis by simp
qed

lemma isHold_iff:
  "isHold e c \<longleftrightarrow> (\<exists>l. e = Some l \<and> toLowerCase l = ''neutral'') \<and> 1 / 2 < c"
  by (cases e) (auto simp add: isHold_def toLowerCase_def)

text \<open>
  Claim C4, as amended. In a state reached from the created object, with a session
  active and the element \<open>calib-image-display\<close> present, a frame is a hold exactly when
  its label, in lower case, is the word neutral and its confidence is above one half; a
  hold adds exactly 1 to \<open>progress\<close>, and any other frame takes one half away, never
  going below 0.
\<close>

theorem processFrame_classification:
  assumes "s = fst (run pg cs (initial src))" "isActive s" "has_image pg"
  shows "(isHold e c \<longleftrightarrow> (\<exists>l. e = Some l \<and> toLowerCase l = ''neutral'') \<and> 1 / 2 < c) \<and>
         (isHold e c \<longrightarrow> progress (fst (processFrame pg inp e c s)) = progress s + 1) \<and>
         (\<not> isHold e c \<longrightarrow>
            progress (fst (processFrame pg inp e c s)) = max 0 (progress s - 1 / 2))"
proof -
  have inv: "tracker_inv s" using assms(1) run_inv [OF initial_inv] by simp
  then have nat: "2 * progress s \<in> \<nat>" by (simp add: tracker_inv_def)
  have miss: "progress (fst (processFrame pg inp e c s)) = max 0 (progress s - 1 / 2)"
    if "\<not> isHold e c"
  proof (cases "0 < progress s")
    case True
    with half_steps_pos [OF nat] have "1 / 2 \<le> progress s" by simp
    with True show ?thesis
      using processFrame_miss(1) [OF assms(2,3) that, of inp] by (simp add: max_def)
  next
    case False
    with half_steps_nonneg [OF nat] have "progress s = 0" by simp
    then show ?thesis
      using processFrame_miss(1) [OF assms(2,3) that, of inp] by (simp add: max_def)
  qed
  show ?thesis
    using isHold_iff [of e c] processFrame_hold(1) [OF assms(2,3), of e c inp] miss
    by blast
qed

lemma started_then_hold:
  "isActive (fst (run page0 [(inp0, CallStart), frameCall holdFrame] (initial None)))"
  "progress (fst (run page0 [(inp0, CallStart), frameCall holdFrame] (initial None))) = 1"
  by code_simp+

theorem processFrame_classification_witness:
  "isActive (fst (run page0 [(inp0, CallStart), frameCall holdFrame] (initial None))) \<and>
   has_image page0 \<and>
   isHold (Some ''Neutral'') (4 / 5) \<and>
   progress (fst (processFrame page0 inp0 (Some ''Neutral'') (4 / 5)
     (fst (run page0 [(inp0, CallStart), frameCall holdFrame] (initial None))))) = 2 \<and>
   \<not> isHold (Some ''happy'') (9 / 10) \<and>
   progress (fst (processFrame page0 inp0 (Some ''happy'') (9 / 10)
     (fst (run page0 [(inp0, CallStart), frameCall holdFrame] (initial None))))) = 1 / 2"
proof -
  have img: "has_image page0" by (simp add: page0_def)
  have h: "isHold (Some ''Neutral'') (4 / 5)"
    using holdFrame_isHold by (simp add: holdFrame_def)
  have m: "\<not> isHold (Some ''happy'') (9 / 10)"
    using missFrame_not_isHold by (simp add: missFrame_def)
  show ?thesis
    using img h m started_then_hold
      processFrame_classification [OF refl started_then_hold(1) img,
        of "Some ''Neutral''" "4 / 5" inp0]
      processFrame_classification [OF refl started_then_hold(1) img,
        of "Some ''happy''" "9 / 10" inp0]
    by simp
qed

lemma started_blind:
  "isActive (fst (run pageNoImage [(inp0, CallStart)] (initial None)))"
  "progress (fst (run pageNoImage [(inp0, CallStart)] (initial None))) = 0"
  by code_simp+

text \<open>
  Claim C4 as stated fails on a page without the image element: the session started
  there is active, the frame is a hold, and \<open>progress\<close> stays at 0.
\<close>

theorem classification_counterexample:
  "\<not> (isActive (fst (run pageNoImage [(inp0, CallStart)] (initial None))) \<and>
       isHold (Some ''Neutral'') (4 / 5) \<longrightarrow>
       progress (fst (processFrame pageNoImage inp0 (Some ''Neutral'') (4 / 5)
         (fst (run pageNoImage [(inp0, CallStart)] (initial None))))) =
       progress (fst (run pageNoImage [(inp0, CallStart)] (initial None))) + 1)"
proof -
  have a: "\<not> has_image pageNoImage" by (simp add: pageNoImage_def page0_def)
  have h: "isHold (Some ''Neutral'') (4 / 5)"
    using holdFrame_isHold by (simp add: holdFrame_def)
  show ?thesis
    using h started_blind by (simp add: processFrame_blind [OF a])
qed

section \<open>Holds followed by lapses\<close>

lemma processFrame_lapse_floor:
  assumes "\<not> isHold e c"
  shows "progress s - 1 / 2 \<le> progress (fst (processFrame pg inp e c s))"
proof (cases "isActive s \<and> has_image pg")
  case True
  then show ?thesis using processFrame_miss(1) [of s pg e c inp] assms by simp
next
  case False
  then show ?thesis by (auto simp add: processFrame_idle processFrame_blind)
qed

lemma run_lapses_floor:
  assumes "\<forall>f \<in> set ms. \<not> frameIsHold f"
  shows "progress s - of_nat (length ms) / 2 \<le> progress (fst (run pg (map frameCall ms) s))"
  using assms
proof (induction ms arbitrary: s)
  case Nil
  then show ?case by simp
next
  case (Cons f ms)
  obtain inp e c where f: "f = (inp, e, c)" by (cases f)
  let ?t = "fst (processFrame pg inp e c s)"
  from Cons.prems f have "\<not> isHold e c" by simp
  then have "progress s - 1 / 2 \<le> progress ?t" by (rule processFrame_lapse_floor)
  moreover have "progress ?t - of_nat (length ms) / 2
      \<le> progress (fst (run pg (map frameCall ms) ?t))"
    using Cons.prems by (intro Cons.IH) simp
  ultimately show ?case using f
    by (simp add: split_beta Let_def field_simps)
qed

lemma run_lapses_exact:
  assumes "has_image pg" "isActive s" "\<forall>f \<in> set ms. \<not> frameIsHold f"
    "of_nat (length ms) / 2 \<le> progress s"
  shows "isActive (fst (run pg (map frameCall ms) s)) \<and>
         progress (fst (run pg (map frameCall ms) s)) = progress s - of_nat (length ms) / 2"
  using assms
proof (induction ms arbitrary: s)
  case Nil
  then show ?case by simp
next
  case (Cons f ms)
  obtain inp e c where f: "f = (inp, e, c)" by (cases f)
  let ?t = "fst (processFrame pg inp e c s)"
  from Cons.prems f have m: "\<not> isHold e c" by simp
  from Cons.prems have pos: "0 < progress s"
    by (simp add: field_simps)
  have t: "isActive ?t" "progress ?t = progress s - 1 / 2"
    using processFrame_miss(1,2) [OF \<open>isActive s\<close> \<open>has_image pg\<close> m, of inp] pos by simp_all
  have "isActive (fst (run pg (map frameCall ms) ?t)) \<and>
        progress (fst (run pg (map frameCall ms) ?t)) = progress ?t - of_nat (length ms) / 2"
    using Cons.prems t by (intro Cons.IH) (simp_all add: field_simps)
  with t f show ?case
    by (simp add: split_beta Let_def field_simps)
qed

lemma run_holds_any:
  assumes "has_image pg" "isActive s" "\<forall>f \<in> set hs. frameIsHold f"
  shows "(isActive (fst (run pg (map frameCall hs) s)) \<and>
          progress (fst (run pg (map frameCall hs) s)) = progress s + of_nat (length hs)) \<or>
         (\<not> isActive (fst (run pg (map frameCall hs) s)) \<and>
          progress s \<le> progress (fst (run pg (map frameCall hs) s)))"
  using assms
proof (induction hs arbitrary: s)
  case Nil
  then show ?case by simp
next
  case (Cons f hs)
  obtain inp e c where f: "f = (inp, e, c)" by (cases f)
  let ?t = "fst (processFrame pg inp e c s)"
  from Cons.prems f have h: "isHold e c" by simp
  have t: "progress ?t = progress s + 1"
    using processFrame_hold(1) [OF \<open>isActive s\<close> \<open>has_image pg\<close> h, of inp] .
  have r: "fst (run pg (map frameCall (f # hs)) s) = fst (run pg (map frameCall hs) ?t)"
    using f by (simp add: split_beta Let_def)
  show ?case
  proof (cases "isActive ?t")
    case True
    have "(isActive (fst (run pg (map frameCall hs) ?t)) \<and>
          progress (fst (run pg (map frameCall hs) ?t)) = progress ?t + of_nat (length hs)) \<or>
         (\<not> isActive (fst (run pg (map frameCall hs) ?t)) \<and>
          progress ?t \<le> progress (fst (run pg (map frameCall hs) ?t)))"
      using Cons.prems True by (intro Cons.IH) simp_all
    then show ?thesis unfolding r t by auto
  next
    case False
    then have "run pg (map frameCall hs) ?t = (?t, [])" by (rule run_frames_idle)
    with False t show ?thesis unfolding r by simp
  qed
qed

text \<open>
  Claim C5. From any state with a session active, some number of holds followed by the
  same number of lapses leaves \<open>progress\<close> no lower than it was. Where the page has the
  image element, \<open>progress\<close> is not negative and the holds stay below the target, the
  result is exact: each hold gave 1, each lapse took one half, and half of the gain is
  left.
\<close>

theorem holds_then_lapses_drift:
  assumes "length hs = n" "length ms = n"
    "\<forall>f \<in> set hs. frameIsHold f" "\<forall>f \<in> set ms. \<not> frameIsHold f" "isActive s"
  shows "progress s \<le> progress (fst (run pg (map frameCall (hs @ ms)) s)) \<and>
         (has_image pg \<and> 0 \<le> progress s \<and> progress s + of_nat n < targetPoints \<longrightarrow>
            progress (fst (run pg (map frameCall (hs @ ms)) s)) = progress s + of_nat n / 2)"
proof -
  let ?t = "fst (run pg (map frameCall hs) s)"
  let ?u = "fst (run pg (map frameCall ms) ?t)"
  have split: "fst (run pg (map frameCall (hs @ ms)) s) = ?u"
    by (simp add: run_append_fst)
  have drift: "progress s \<le> progress ?u"
  proof (cases "has_image pg")
    case False
    then show ?thesis by (simp add: run_frames_blind)
  next
    case True
    from run_holds_any [OF True assms(5,3)] show ?thesis
    proof
      assume a: "isActive ?t \<and> progress ?t = progress s + of_nat (length hs)"
      have "progress ?t - of_nat (length ms) / 2 \<le> progress ?u"
        using assms(4) by (rule run_lapses_floor)
      with a assms(1,2) show ?thesis by (simp add: field_simps)
    next
      assume a: "\<not> isActive ?t \<and> progress s \<le> progress ?t"
      then have "run pg (map frameCall ms) ?t = (?t, [])" by (simp add: run_frames_idle)
      with a show ?thesis by simp
    qed
  qed
  have exact: "progress ?u = progress s + of_nat n / 2"
    if img: "has_image pg" and nn: "0 \<le> progress s" and lt: "progress s + of_nat n < targetPoints"
  proof -
    have t: "isActive ?t \<and> progress ?t = progress s + of_nat (length hs)"
      using img assms(5,3) lt assms(1) by (intro run_holds) simp_all
    then have "of_nat (length ms) / 2 \<le> progress ?t"
      using nn assms(1,2) by (simp add: field_simps)
    with t have "isActive ?u \<and> progress ?u = progress ?t - of_nat (length ms) / 2"
      using img assms(4) by (intro run_lapses_exact) simp_all
    with t assms(1,2) show ?thesis by (simp add: field_simps)
  qed
  show ?thesis unfolding split using drift exact by blast
qed

theorem holds_then_lapses_drift_witness:
  "length [holdFrame, holdFrame] = 2 \<and> length [missFrame, missFrame] = 2 \<and>
   frameIsHold holdFrame \<and> \<not> frameIsHold missFrame \<and>
   isActive midSession \<and> has_image page0 \<and> 0 \<le> progress midSession \<and>
   progress midSession + of_nat 2 < targetPoints \<and>
   progress midSession = 10 \<and>
   progress (fst (run page0
     (map frameCall ([holdFrame, holdFrame] @ [missFrame, missFrame])) midSession)) = 11"
proof -
  have a: "length [holdFrame, holdFrame] = 2" "length [missFrame, missFrame] = 2" by simp_all
  have h: "\<forall>f \<in> set [holdFrame, holdFrame]. frameIsHold f" by (simp add: holdFrame_isHold)
  have m: "\<forall>f \<in> set [missFrame, missFrame]. \<not> frameIsHold f"
    by (simp add: missFrame_not_isHold)
  have s: "isActive midSession" by (simp add: midSession_def)
  have p: "has_image page0" "0 \<le> progress midSession"
    "progress midSession + of_nat 2 < targetPoints" "progress midSession = 10"
    by (simp_all add: page0_def midSession_def targetPoints_def)
  show ?thesis
    using a holdFrame_isHold missFrame_not_isHold s p
      holds_then_lapses_drift [OF a h m s, of page0]
    by simp
qed

section \<open>Completion\<close>











section \<open>The choice of the asset\<close>

lemma draw_in_range:
  fixes r :: rat
  assumes "0 \<le> r" "r < 1" "0 < n"
  shows "0 \<le> \<lfloor>r * of_nat n\<rfloor> \<and> \<lfloor>r * of_nat n\<rfloor> < int n"
proof -
  have "0 \<le> r * of_nat n" using assms(1) by simp
  then have lo: "0 \<le> \<lfloor>r * of_nat n\<rfloor>" by simp
  have "r * of_nat n < 1 * of_nat n"
    using assms(2,3) by (intro mult_strict_right_mono) simp_all
  then have "r * of_nat n < of_int (int n)" by simp
  then have "\<lfloor>r * of_nat n\<rfloor> < int n" by (simp only: floor_less_iff)
  with lo show ?thesis by simp
qed

lemma poolAt_member:
  assumes "0 \<le> i" "i < int (length pool)"
  shows "poolAt pool i \<in> set pool"
  using assms by (simp add: poolAt_def)

lemma proposeAsset_draw:
  assumes "imagePool s ph = Some pool" "pool \<noteq> []" "\<not> pool_includes pool (imgSrc s)"
    "0 \<le> randomDraw inp" "randomDraw inp < 1"
  shows "\<exists>a \<in> set pool. proposeAsset inp ph s = (s\<lparr>imgSrc := Some a\<rparr>, [ImageSet a])"
proof -
  let ?i = "\<lfloor>randomDraw inp * of_nat (length pool)\<rfloor>"
  from assms(2) have "0 < length pool" by simp
  with assms(4,5) have "0 \<le> ?i \<and> ?i < int (length pool)" by (intro draw_in_range)
  then have "poolAt pool ?i \<in> set pool" by (simp add: poolAt_member)
  moreover have "proposeAsset inp ph s =
      (s\<lparr>imgSrc := Some (poolAt pool ?i)\<rparr>, [ImageSet (poolAt pool ?i)])"
    using assms(1,2,3) by (simp add: proposeAsset_def Let_def)
  ultimately show ?thesis by blast
qed

text \<open>
  Claim C9. For every phase and displayed asset: when the table has no pool for the
  phase, when the pool is empty, or when the displayed asset is in the pool, the state
  is returned as it was and the image is not touched; nothing fails on an empty pool.
  Otherwise, with the draw of \<open>Math.random()\<close> in its range from 0 up to but not
  including 1, the image is set to a member of the pool of that phase. \<open>updateStimuli\<close>
  applies this to the phase of its percentage whenever the page has the image element.
\<close>

theorem proposeAsset_pool:
  "(imagePool s ph = None \<longrightarrow> proposeAsset inp ph s = (s, [])) \<and>
   (imagePool s ph = Some pool \<and> (pool = [] \<or> pool_includes pool (imgSrc s)) \<longrightarrow>
      proposeAsset inp ph s = (s, [])) \<and>
   (imagePool s ph = Some pool \<and> pool \<noteq> [] \<and> \<not> pool_includes pool (imgSrc s) \<and>
    0 \<le> randomDraw inp \<and> randomDraw inp < 1 \<longrightarrow>
      (\<exists>a \<in> set pool. proposeAsset inp ph s = (s\<lparr>imgSrc := Some a\<rparr>, [ImageSet a]))) \<and>
   (pool_includes pool cur \<longleftrightarrow> (\<exists>a \<in> set pool. cur = Some a)) \<and>
   fst (updateStimuli pg inp percent s) =
     (if has_image pg then fst (proposeAsset inp (selectPhase percent) s) else s)"
proof -
  have a: "imagePool s ph = None \<longrightarrow> proposeAsset inp ph s = (s, [])"
    by (simp add: proposeAsset_def)
  have b: "imagePool s ph = Some pool \<and> (pool = [] \<or> pool_includes pool (imgSrc s)) \<longrightarrow>
      proposeAsset inp ph s = (s, [])"
    by (auto simp add: proposeAsset_def)
  have c: "pool_includes pool cur \<longleftrightarrow> (\<exists>a \<in> set pool. cur = Some a)"
    by (cases cur) (auto simp add: pool_includes_def)
  have d: "fst (updateStimuli pg inp percent s) =
     (if has_image pg then fst (proposeAsset inp (selectPhase percent) s) else s)"
    by (simp add: updateStimuli_def Let_def split_beta)
  show ?thesis using a b c d proposeAsset_draw [of s ph pool inp] by blast
qed

theorem proposeAsset_pool_witness:
  "imagePool poolState Relax = None \<and> proposeAsset inpDraw Relax poolState = (poolState, []) \<and>
   imagePool (initial None) Focus = Some [] \<and>
   proposeAsset inpDraw Focus (initial None) = (initial None, []) \<and>
   imagePool poolState Focus = Some [''f1.png''] \<and>
   pool_includes [''f1.png''] (imgSrc poolState) \<and>
   proposeAsset inpDraw Focus poolState = (poolState, []) \<and>
   imagePool poolState Neutral = Some [''n1.png'', ''n2.png''] \<and>
   \<not> pool_includes [''n1.png'', ''n2.png''] (imgSrc poolState) \<and>
   0 \<le> randomDraw inpDraw \<and> randomDraw inpDraw < 1 \<and>
   (\<exists>a \<in> set [''n1.png'', ''n2.png''].
      proposeAsset inpDraw Neutral poolState = (poolState\<lparr>imgSrc := Some a\<rparr>, [ImageSet a])) \<and>
   imgSrc (fst (proposeAsset inpDraw Neutral poolState)) = Some ''n2.png''"
proof -
  have n: "imagePool poolState Relax = None" by (simp add: poolState_def)
  have e: "imagePool (initial None) Focus = Some []" by (simp add: initial_def)
  have f: "imagePool poolState Focus = Some [''f1.png'']"
    "pool_includes [''f1.png''] (imgSrc poolState)"
    by (simp_all add: poolState_def pool_includes_def)
  have m: "imagePool poolState Neutral = Some [''n1.png'', ''n2.png'']"
    "\<not> pool_includes [''n1.png'', ''n2.png''] (imgSrc poolState)"
    "0 \<le> randomDraw inpDraw" "randomDraw inpDraw < 1"
    by (simp_all add: poolState_def pool_includes_def inpDraw_def)
  have v: "imgSrc (fst (proposeAsset inpDraw Neutral poolState)) = Some ''n2.png''"
    by code_simp
  show ?thesis
    using n e f m v
      proposeAsset_pool [of poolState Relax inpDraw "[]" None page0 0]
      proposeAsset_pool [of "initial None" Focus inpDraw "[]" None page0 0]
      proposeAsset_pool [of poolState Focus inpDraw "[''f1.png'']" None page0 0]
      proposeAsset_pool [of poolState Neutral inpDraw "[''n1.png'', ''n2.png'']" None page0 0]
    by simp
qed

section \<open>The fusion verdict\<close>






end
